theory Spec2Isabelle
  imports Main "HOL-Library.Sublist"
begin

section \<open>Python values used by render_mcp_server.py\<close>

text \<open>
  A Python \<open>str\<close> is a sequence of Unicode code points, so it is a list of naturals here.
  String literals of the source are written with \<open>cps\<close>, which turns an ASCII literal
  into its code points; the one non-ASCII character of the source, the em dash U+2014 of
  the diagnostic messages, is written as the number 8212.
\<close>

type_synonym str = "nat list"

definition cps :: "string \<Rightarrow> str" where
  "cps s = map of_char s"

definition em_dash :: nat where
  "em_dash = 8212"

text \<open>\<open>sub in s\<close> on two strings: \<open>sub\<close> occurs in \<open>s\<close> as a contiguous block.\<close>

fun str_in :: "str \<Rightarrow> str \<Rightarrow> bool" where
  "str_in sub [] = (sub = [])"
| "str_in sub (c # cs) = (prefix sub (c # cs) \<or> str_in sub cs)"

text \<open>
  \<open>s.lower()\<close>. On ASCII it maps \<open>A\<close>..\<open>Z\<close> to \<open>a\<close>..\<open>z\<close> and leaves every other
  character alone. The em dash has no case mapping. For every other code point the result
  comes from the case tables of the Unicode database, which are not part of this program:
  they are the parameter \<open>u\<close>, which receives the whole string and the position (the
  mapping of a code point may depend on its neighbours and may be several code points long).
\<close>

type_synonym casemap = "str \<Rightarrow> nat \<Rightarrow> str"

definition ascii_lower :: "nat \<Rightarrow> nat" where
  "ascii_lower c = (if 65 \<le> c \<and> c \<le> 90 then c + 32 else c)"

definition lower_at :: "casemap \<Rightarrow> str \<Rightarrow> nat \<Rightarrow> str" where
  "lower_at u s i =
     (let c = s ! i in if c < 128 \<or> c = em_dash then [ascii_lower c] else u s i)"

definition lower :: "casemap \<Rightarrow> str \<Rightarrow> str" where
  "lower u s = concat (map (lower_at u s) [0..<length s])"

text \<open>A case table for text without cased letters outside ASCII.\<close>

definition uncased :: casemap where
  "uncased s i = [s ! i]"

text \<open>
  \<open>s.strip()\<close> removes the characters for which \<open>str.isspace\<close> holds from both ends.
\<close>

definition isspace :: "nat \<Rightarrow> bool" where
  "isspace c =
     ((9 \<le> c \<and> c \<le> 13) \<or> (28 \<le> c \<and> c \<le> 32) \<or> c = 133 \<or> c = 160 \<or> c = 5760
      \<or> (8192 \<le> c \<and> c \<le> 8202) \<or> c = 8232 \<or> c = 8233 \<or> c = 8239 \<or> c = 8287
      \<or> c = 12288)"

definition strip :: "str \<Rightarrow> str" where
  "strip s = rev (dropWhile isspace (rev (dropWhile isspace s)))"

text \<open>
  \<open>s.split(sep)\<close> for a one-character separator: the fields between the separators,
  empty fields included, so the result is never the empty list.
\<close>

fun split_from :: "nat \<Rightarrow> str \<Rightarrow> str \<Rightarrow> str list" where
  "split_from sep cur [] = [cur]"
| "split_from sep cur (c # cs) =
     (if c = sep then cur # split_from sep [] cs else split_from sep (cur @ [c]) cs)"

definition split_str :: "nat \<Rightarrow> str \<Rightarrow> str list" where
  "split_str sep s = split_from sep [] s"

definition comma :: nat where
  "comma = 44"

text \<open>
  The values a decoded JSON body can hold (\<open>JNull\<close> is Python's \<open>None\<close>). A dict is
  the list of its items, every key once. Of a number the handler only tests whether it is
  zero, so a number is kept as an integer.
\<close>

datatype json =
    JNull
  | JBool bool
  | JNum int
  | JStr str
  | JArr "json list"
  | JObj "(str \<times> json) list"

text \<open>Python truthiness, as tested by \<open>not x\<close> and \<open>x or y\<close>.\<close>

fun truthy :: "json \<Rightarrow> bool" where
  "truthy JNull = False"
| "truthy (JBool b) = b"
| "truthy (JNum n) = (n \<noteq> 0)"
| "truthy (JStr s) = (s \<noteq> [])"
| "truthy (JArr xs) = (xs \<noteq> [])"
| "truthy (JObj kvs) = (kvs \<noteq> [])"

text \<open>Exceptions are values; every one of them derives from \<open>Exception\<close>.\<close>

datatype error =
    RuntimeError str
  | AttributeError
  | BadRequest
  | RequestException
  | HTTPError nat

text \<open>\<open>payload.get(key, None)\<close>: only a dict has the method.\<close>

fun dict_get :: "json \<Rightarrow> str \<Rightarrow> error + json" where
  "dict_get (JObj kvs) k = Inr (case map_of kvs k of None \<Rightarrow> JNull | Some v \<Rightarrow> v)"
| "dict_get _ k = Inl AttributeError"

section \<open>Configuration\<close>

type_synonym environ = "string \<rightharpoonup> str"

definition getenv :: "environ \<Rightarrow> string \<Rightarrow> str \<Rightarrow> str" where
  "getenv env name dflt = (case env name of None \<Rightarrow> dflt | Some v \<Rightarrow> v)"

record config =
  RENDER_API_TOKEN :: str
  RENDER_SERVICE_ID :: str
  ALLOWED_KEYS :: str

definition load_config :: "environ \<Rightarrow> config" where
  "load_config env =
     \<lparr>RENDER_API_TOKEN = getenv env ''RENDER_API_TOKEN'' [],
      RENDER_SERVICE_ID = getenv env ''RENDER_SERVICE_ID'' [],
      ALLOWED_KEYS = getenv env ''ALLOWED_KEYS'' []\<rparr>"

section \<open>The log fetcher\<close>

text \<open>
  The outside world: \<open>requests.get\<close> either raises or returns a response. The requests
  that were sent are kept in a log, which every operation that may use the network takes
  and returns.
\<close>

record http_get =
  url :: str
  headers :: "(str \<times> str) list"
  timeout :: nat

record http_response =
  status_code :: nat
  body_text :: str

type_synonym network = "http_get \<Rightarrow> error + http_response"

definition raise_for_status :: "http_response \<Rightarrow> error + unit" where
  "raise_for_status r =
     (if 400 \<le> status_code r \<and> status_code r < 600 then Inl (HTTPError (status_code r))
      else Inr ())"

definition config_message :: str where
  "config_message =
     cps ''RENDER_API_TOKEN and RENDER_SERVICE_ID must be set as environment variables.''"

definition get_build_logs ::
    "config \<Rightarrow> network \<Rightarrow> http_get list \<Rightarrow> (error + str) \<times> http_get list" where
  "get_build_logs cfg net sent =
     (if RENDER_API_TOKEN cfg = [] \<or> RENDER_SERVICE_ID cfg = []
      then (Inl (RuntimeError config_message), sent)
      else
        let hdrs = [(cps ''Authorization'', cps ''Bearer '' @ RENDER_API_TOKEN cfg),
                    (cps ''Accept'', cps ''application/json'')];
            u = cps ''https://api.render.com/v1/services/'' @ RENDER_SERVICE_ID cfg
                  @ cps ''/logs'';
            rq = \<lparr>url = u, headers = hdrs, timeout = 30\<rparr>;
            sent' = sent @ [rq]
        in case net rq of
             Inl e \<Rightarrow> (Inl e, sent')
           | Inr r \<Rightarrow>
               (case raise_for_status r of
                  Inl e \<Rightarrow> (Inl e, sent')
                | Inr _ \<Rightarrow> (Inr (body_text r), sent')))"

section \<open>The access guard\<close>

text \<open>
  Of a request the handlers read the \<open>X-API-KEY\<close> header and the outcome of
  \<open>request.json\<close>, which raises one of the HTTP exceptions of the framework when the
  request has no JSON body or the body cannot be decoded.
\<close>

record request =
  x_api_key :: "str option"
  request_json :: "error + json"

definition headers_get :: "request \<Rightarrow> str \<Rightarrow> str" where
  "headers_get req dflt = (case x_api_key req of None \<Rightarrow> dflt | Some v \<Rightarrow> v)"

definition simple_auth_ok :: "config \<Rightarrow> request \<Rightarrow> bool" where
  "simple_auth_ok cfg req =
     (if ALLOWED_KEYS cfg = [] then True
      else
        let key = headers_get req [];
            allowed = map strip (filter (\<lambda>k. strip k \<noteq> []) (split_str comma (ALLOWED_KEYS cfg)))
        in key \<in> set allowed)"

section \<open>The heuristic diagnoser\<close>

definition diag_module :: str where
  "diag_module =
     cps ''ModuleNotFoundError detected '' @ [em_dash]
     @ cps '' missing Python package. Add the missing package to requirements.txt and redeploy.''"

definition diag_syntax :: str where
  "diag_syntax =
     cps ''SyntaxError detected '' @ [em_dash]
     @ cps '' check indentation, parentheses or invalid syntax in the mentioned file and line number.''"

definition diag_pip :: str where
  "diag_pip =
     cps ''pip install failure '' @ [em_dash]
     @ cps '' try pinning dependency versions or increasing build resources. Check wheels vs source build.''"

definition diag_permission :: str where
  "diag_permission =
     cps ''Permission denied '' @ [em_dash]
     @ cps '' check file permissions and user running the build step.''"

definition diag_memory :: str where
  "diag_memory =
     cps ''Out of memory '' @ [em_dash]
     @ cps '' build is exceeding memory limits; try smaller build or increase plan.''"

definition diag_fallback :: str where
  "diag_fallback =
     cps ''No obvious pattern detected. Consider sharing a larger snippet of the build log or running the build locally for step-by-step debugging.''"

text \<open>
  The analysis block of \<open>debug_with_ai\<close>: the list \<open>diagnostics\<close> starts empty and each
  \<open>if\<close> appends to it.
\<close>

definition diagnose :: "casemap \<Rightarrow> str \<Rightarrow> str list" where
  "diagnose u build_output =
     (let diagnostics = [];
          lower = lower u build_output;
          diagnostics =
            (if str_in (cps ''module not founderror'') lower
                \<or> str_in (cps ''modulenotfounderror'') lower
             then diagnostics @ [diag_module] else diagnostics);
          diagnostics =
            (if str_in (cps ''syntaxerror'') lower
             then diagnostics @ [diag_syntax] else diagnostics);
          diagnostics =
            (if str_in (cps ''pip install'') lower
                \<and> (str_in (cps ''failed'') lower \<or> str_in (cps ''error'') lower)
             then diagnostics @ [diag_pip] else diagnostics);
          diagnostics =
            (if str_in (cps ''permission denied'') lower
             then diagnostics @ [diag_permission] else diagnostics);
          diagnostics =
            (if str_in (cps ''out of memory'') lower \<or> str_in (cps ''oom'') lower
             then diagnostics @ [diag_memory] else diagnostics);
          diagnostics =
            (if diagnostics = [] then diagnostics @ [diag_fallback] else diagnostics)
      in diagnostics)"

section \<open>The fix mapper\<close>

definition fix_package :: str where
  "fix_package =
     cps ''Add the missing package to requirements.txt; ensure correct package name/version; then redeploy.''"

definition fix_syntax :: str where
  "fix_syntax =
     cps ''Open the file and inspect the indicated line number for syntax issues; run `python -m pyflakes <file>` or `python -m py_compile <file>` locally.''"

definition fix_pip :: str where
  "fix_pip =
     cps ''Pin dependency versions in requirements.txt, try `pip wheel` for heavy packages, or add system dependencies in your Render build script.''"

definition fix_memory :: str where
  "fix_memory =
     cps ''Use smaller build, split heavy dependencies, or upgrade Render plan. Add swap in build stage if possible.''"

definition fix_generic :: str where
  "fix_generic = cps ''Inspect logs, confirm environment variables, and retry the build.''"

text \<open>The body of the loop \<open>for d in diagnostics\<close>: the string it appends for \<open>d\<close>.\<close>

definition fix_for :: "casemap \<Rightarrow> str \<Rightarrow> str" where
  "fix_for u d =
     (if str_in (cps ''missing python package'') (lower u d)
         \<or> str_in (cps ''modulenotfounderror'') (lower u d)
      then fix_package
      else if str_in (cps ''syntaxerror'') (lower u d) then fix_syntax
      else if str_in (cps ''pip install failure'') (lower u d) then fix_pip
      else if str_in (cps ''out of memory'') (lower u d) then fix_memory
      else fix_generic)"

text \<open>The loop itself, with the list \<open>suggested_fixes\<close> as its accumulator.\<close>

fun fix_loop :: "casemap \<Rightarrow> str list \<Rightarrow> str list \<Rightarrow> str list" where
  "fix_loop u [] suggested_fixes = suggested_fixes"
| "fix_loop u (d # ds) suggested_fixes = fix_loop u ds (suggested_fixes @ [fix_for u d])"

section \<open>The route /debug\<close>

text \<open>
  A response is its HTTP status and the fields of its JSON body. The body of a 200 answer
  also holds the constant \<open>note\<close>, and the body of a 500 answer the formatted traceback.
\<close>

datatype response =
    Debug_ok "str list" "str list"
  | Unauthorized
  | Server_error error

fun http_status :: "response \<Rightarrow> nat" where
  "http_status (Debug_ok ds fs) = 200"
| "http_status Unauthorized = 401"
| "http_status (Server_error e) = 500"

fun status_field :: "response \<Rightarrow> string" where
  "status_field (Debug_ok ds fs) = ''ok''"
| "status_field Unauthorized = ''error''"
| "status_field (Server_error e) = ''error''"

text \<open>\<open>build_output.lower()\<close> and what follows it: only a \<open>str\<close> has the method.\<close>

fun analyse :: "casemap \<Rightarrow> json \<Rightarrow> response" where
  "analyse u (JStr build_output) =
     (let diagnostics = diagnose u build_output;
          suggested_fixes = fix_loop u diagnostics []
      in Debug_ok diagnostics suggested_fixes)"
| "analyse u _ = Server_error AttributeError"

definition debug_with_ai ::
    "casemap \<Rightarrow> config \<Rightarrow> network \<Rightarrow> request \<Rightarrow> http_get list \<Rightarrow> response \<times> http_get list"
  where
  "debug_with_ai u cfg net req sent =
     (if \<not> simple_auth_ok cfg req then (Unauthorized, sent)
      else
        case request_json req of
          Inl e \<Rightarrow> (Server_error e, sent)
        | Inr j \<Rightarrow>
            let payload = (if truthy j then j else JObj []) in
            (case dict_get payload (cps ''logs'') of
               Inl e \<Rightarrow> (Server_error e, sent)
             | Inr build_output \<Rightarrow>
                 if \<not> truthy build_output
                 then (case get_build_logs cfg net sent of
                         (Inl e, sent') \<Rightarrow> (Server_error e, sent')
                       | (Inr fetched, sent') \<Rightarrow> (analyse u (JStr fetched), sent'))
                 else (analyse u build_output, sent)))"

section \<open>Reference definitions\<close>

text \<open>
  The rules of the diagnoser as a table, in the order in which they are evaluated: the
  predicate on the lower-cased text and the message of the rule. \<open>fired\<close> selects the
  messages of the rules whose predicate holds, keeping the order of the table.
\<close>

definition rule_module :: "str \<Rightarrow> bool" where
  "rule_module l =
     (str_in (cps ''module not founderror'') l \<or> str_in (cps ''modulenotfounderror'') l)"

definition rule_syntax :: "str \<Rightarrow> bool" where
  "rule_syntax l = str_in (cps ''syntaxerror'') l"

definition rule_pip :: "str \<Rightarrow> bool" where
  "rule_pip l =
     (str_in (cps ''pip install'') l \<and> (str_in (cps ''failed'') l \<or> str_in (cps ''error'') l))"

definition rule_permission :: "str \<Rightarrow> bool" where
  "rule_permission l = str_in (cps ''permission denied'') l"

definition rule_memory :: "str \<Rightarrow> bool" where
  "rule_memory l = (str_in (cps ''out of memory'') l \<or> str_in (cps ''oom'') l)"

definition rule_table :: "((str \<Rightarrow> bool) \<times> str) list" where
  "rule_table =
     [(rule_module, diag_module), (rule_syntax, diag_syntax), (rule_pip, diag_pip),
      (rule_permission, diag_permission), (rule_memory, diag_memory)]"

definition fired :: "str \<Rightarrow> str list" where
  "fired l = map snd (filter (\<lambda>r. fst r l) rule_table)"

text \<open>
  The access guard as section 4.2 of the specification words it: the supplied key is
  trimmed, and it is looked up among the trimmed entries of the comma-split list.
\<close>

definition spec_auth_ok :: "config \<Rightarrow> request \<Rightarrow> bool" where
  "spec_auth_ok cfg req =
     (if ALLOWED_KEYS cfg = [] then True
      else strip (headers_get req []) \<in> set (map strip (split_str comma (ALLOWED_KEYS cfg))))"

text \<open>\<open>sep.join(parts)\<close>, the inverse of \<open>split\<close>.\<close>

fun join_str :: "nat \<Rightarrow> str list \<Rightarrow> str" where
  "join_str sep [] = []"
| "join_str sep [p] = p"
| "join_str sep (p # q # ps) = p @ sep # join_str sep (q # ps)"

text \<open>Text on which \<open>lower\<close> does not consult the case tables.\<close>

definition plain :: "str \<Rightarrow> bool" where
  "plain s = list_all (\<lambda>c. c < 128 \<or> c = em_dash) s"

section \<open>Concrete configurations and requests\<close>

definition cfg_keys :: "string \<Rightarrow> config" where
  "cfg_keys ks = \<lparr>RENDER_API_TOKEN = [], RENDER_SERVICE_ID = [], ALLOWED_KEYS = cps ks\<rparr>"

definition cfg_render :: config where
  "cfg_render =
     \<lparr>RENDER_API_TOKEN = cps ''token'', RENDER_SERVICE_ID = cps ''srv-1'', ALLOWED_KEYS = []\<rparr>"

definition req_key :: "string \<Rightarrow> request" where
  "req_key k = \<lparr>x_api_key = Some (cps k), request_json = Inr JNull\<rparr>"

definition req_logs :: "json \<Rightarrow> request" where
  "req_logs v = \<lparr>x_api_key = None, request_json = Inr (JObj [(cps ''logs'', v)])\<rparr>"

definition permission_logs :: str where
  "permission_logs = cps ''Error: permission denied while writing file''"


definition net_down :: network where
  "net_down rq = Inl RequestException"

definition net_echo :: network where
  "net_echo rq = Inr \<lparr>status_code = 200, body_text = cps ''SyntaxError: invalid syntax''\<rparr>"

section \<open>Strings\<close>

text \<open>\<open>str_in\<close> is the usual notion of a contiguous block.\<close>

lemma str_in_sublist: "str_in sub s = sublist sub s"
  by (induction s) (simp_all add: sublist_Cons_right)

lemma str_in_iff: "str_in sub s \<longleftrightarrow> (\<exists>a b. s = a @ sub @ b)"
  by (simp add: str_in_sublist sublist_def)

lemma str_in_append: "str_in sub (a @ sub @ b)"
  by (simp add: str_in_sublist)

lemma ascii_lower_ge: "c \<le> ascii_lower c"
  by (simp add: ascii_lower_def)

lemma nth_mid: "i < length m \<Longrightarrow> (a @ m @ b) ! (length a + i) = m ! i"
  by (simp add: nth_append)

lemma lower_range:
  assumes "\<forall>c\<in>set m. c < 128 \<or> c = em_dash"
  shows "concat (map (lower_at u (a @ m @ b)) [length a..<length a + length m]) = map ascii_lower m"
proof -
  have "map (lower_at u (a @ m @ b)) [length a..<length a + length m] = map (\<lambda>c. [ascii_lower c]) m"
  proof (rule nth_equalityI)
    show "length (map (lower_at u (a @ m @ b)) [length a..<length a + length m]) = length (map (\<lambda>c. [ascii_lower c]) m)"
      by simp
  next
    fix i assume "i < length (map (lower_at u (a @ m @ b)) [length a..<length a + length m])"
    then have i: "i < length m" by simp
    then have "m ! i \<in> set m" by simp
    with assms have "m ! i < 128 \<or> m ! i = em_dash" by blast
    with i show "map (lower_at u (a @ m @ b)) [length a..<length a + length m] ! i = map (\<lambda>c. [ascii_lower c]) m ! i"
      by (auto simp add: lower_at_def nth_append Let_def)
  qed
  then show ?thesis by (simp add: concat_map_singleton)
qed

lemma upt_three: "[0..<length (a @ m @ b)] = [0..<length a] @ [length a..<length a + length m] @ [length a + length m..<length (a @ m @ b)]"
proof -
  have "[0..<length a + (length m + length b)] = [0..<length a] @ [length a..<length a + (length m + length b)]"
    using upt_add_eq_append [of 0 "length a" "length m + length b"] by simp
  moreover have "[length a..<length a + (length m + length b)] = [length a..<length a + length m] @ [length a + length m..<length a + (length m + length b)]"
    using upt_add_eq_append [of "length a" "length a + length m" "length b"] by (simp add: add.assoc)
  ultimately show ?thesis by simp
qed

lemma lower_contains:
  assumes "\<forall>c\<in>set m. c < 128 \<or> c = em_dash"
  shows "str_in (map ascii_lower m) (lower u (a @ m @ b))"
proof -
  have "lower u (a @ m @ b) =
      concat (map (lower_at u (a @ m @ b)) [0..<length a]) @ map ascii_lower m
      @ concat (map (lower_at u (a @ m @ b)) [length a + length m..<length (a @ m @ b)])"
    unfolding lower_def by (subst upt_three) (simp add: lower_range [OF assms])
  then show ?thesis by (simp add: str_in_append)
qed

lemma lower_plain:
  assumes "\<forall>c\<in>set s. c < 128 \<or> c = em_dash"
  shows "lower u s = map ascii_lower s"
  using lower_range [OF assms, of u "[]" "[]"] by (simp add: lower_def)

lemma fix_loop_map: "fix_loop u ds acc = acc @ map (fix_for u) ds"
  by (induction ds arbitrary: acc) simp_all

lemmas lits = cps_def ascii_lower_def em_dash_def diag_module_def diag_syntax_def diag_pip_def
  diag_permission_def diag_memory_def diag_fallback_def

lemma lower_of_plain: "plain s \<Longrightarrow> lower u s = map ascii_lower s"
  by (rule lower_plain) (simp add: plain_def list_all_iff)

lemma plain_diags:
  "plain diag_module" "plain diag_syntax" "plain diag_pip" "plain diag_permission"
  "plain diag_memory" "plain diag_fallback"
  by (simp_all add: plain_def lits)

text \<open>\<open>split_str\<close> and \<open>strip\<close> do what the library functions do.\<close>

lemma split_from_nonempty: "split_from sep cur s \<noteq> []"
  by (induction s arbitrary: cur) simp_all

lemma join_Cons: "ps \<noteq> [] \<Longrightarrow> join_str sep (p # ps) = p @ sep # join_str sep ps"
  by (cases ps) simp_all

lemma join_split_from: "join_str sep (split_from sep cur s) = cur @ s"
  by (induction s arbitrary: cur) (simp_all add: join_Cons split_from_nonempty)

lemma join_split: "join_str sep (split_str sep s) = s"
  by (simp add: split_str_def join_split_from)

lemma split_from_no_sep:
  "sep \<notin> set cur \<Longrightarrow> \<forall>p\<in>set (split_from sep cur s). sep \<notin> set p"
proof (induction s arbitrary: cur)
  case Nil
  then show ?case by simp
next
  case (Cons c cs)
  show ?case
  proof (cases "c = sep")
    case True
    with Cons.IH [of "[]"] Cons.prems show ?thesis by simp
  next
    case False
    with Cons.IH [of "cur @ [c]"] Cons.prems show ?thesis by simp
  qed
qed

lemma split_no_sep: "p \<in> set (split_str sep s) \<Longrightarrow> sep \<notin> set p"
  using split_from_no_sep [of sep "[]" s] by (simp add: split_str_def)

lemma strip_tail:
  "dropWhile isspace s = strip s @ rev (takeWhile isspace (rev (dropWhile isspace s)))"
proof -
  let ?d = "dropWhile isspace s"
  have "strip s @ rev (takeWhile isspace (rev ?d))
      = rev (takeWhile isspace (rev ?d) @ dropWhile isspace (rev ?d))"
    by (simp only: strip_def rev_append)
  also have "\<dots> = rev (rev ?d)" by (simp only: takeWhile_dropWhile_id)
  also have "\<dots> = ?d" by simp
  finally show ?thesis by simp
qed

lemma strip_decomp:
  "s = takeWhile isspace s @ strip s @ rev (takeWhile isspace (rev (dropWhile isspace s)))"
proof -
  have "s = takeWhile isspace s @ dropWhile isspace s" by simp
  also have "dropWhile isspace s
      = strip s @ rev (takeWhile isspace (rev (dropWhile isspace s)))"
    by (rule strip_tail)
  finally show ?thesis .
qed

lemma strip_edges:
  assumes "strip s \<noteq> []"
  shows "\<not> isspace (hd (strip s))" and "\<not> isspace (last (strip s))"
proof -
  let ?d = "dropWhile isspace s"
  have "?d \<noteq> []"
  proof
    assume "?d = []"
    then have "strip s = rev (dropWhile isspace (rev []))" by (simp only: strip_def)
    with assms show False by simp
  qed
  then have "\<not> isspace (hd ?d)" by (rule hd_dropWhile)
  moreover from assms have "hd ?d = hd (strip s)"
    using strip_tail [of s] by (metis hd_append2)
  ultimately show "\<not> isspace (hd (strip s))" by simp
  from assms have "dropWhile isspace (rev ?d) \<noteq> []" by (simp add: strip_def)
  then have "\<not> isspace (hd (dropWhile isspace (rev ?d)))" by (rule hd_dropWhile)
  with assms show "\<not> isspace (last (strip s))"
    by (simp add: strip_def last_rev)
qed

lemma strip_fixed:
  assumes "t \<noteq> []" "\<not> isspace (hd t)" "\<not> isspace (last t)"
  shows "strip t = t"
proof -
  from assms have "dropWhile isspace t = t" by (cases t) simp_all
  moreover from assms have "dropWhile isspace (rev t) = rev t"
    by (cases "rev t") (simp_all add: last_rev [symmetric] hd_rev)
  ultimately show ?thesis by (simp add: strip_def)
qed

lemma strip_strip: "strip (strip s) = strip s"
proof (cases "strip s = []")
  case True
  moreover have "strip [] = []" by (simp add: strip_def)
  ultimately show ?thesis by simp
next
  case False
  then show ?thesis by (rule strip_fixed) (simp_all add: strip_edges False)
qed

section \<open>The fix of each diagnostic\<close>

lemma fix_for_module: "fix_for u diag_module = fix_package"
proof -
  have "str_in (cps ''missing python package'') (map ascii_lower diag_module)"
    by (simp add: lits)
  then show ?thesis by (simp add: fix_for_def lower_of_plain plain_diags)
qed


lemma fix_for_pip: "fix_for u diag_pip = fix_pip"
proof -
  have "\<not> str_in (cps ''missing python package'') (map ascii_lower diag_pip)"
       "\<not> str_in (cps ''modulenotfounderror'') (map ascii_lower diag_pip)"
       "\<not> str_in (cps ''syntaxerror'') (map ascii_lower diag_pip)"
       "str_in (cps ''pip install failure'') (map ascii_lower diag_pip)" by (simp_all add: lits)
  then show ?thesis by (simp add: fix_for_def lower_of_plain plain_diags)
qed

lemma fix_for_permission: "fix_for u diag_permission = fix_generic"
proof -
  have "\<not> str_in (cps ''missing python package'') (map ascii_lower diag_permission)"
       "\<not> str_in (cps ''modulenotfounderror'') (map ascii_lower diag_permission)"
       "\<not> str_in (cps ''syntaxerror'') (map ascii_lower diag_permission)"
       "\<not> str_in (cps ''pip install failure'') (map ascii_lower diag_permission)"
       "\<not> str_in (cps ''out of memory'') (map ascii_lower diag_permission)" by (simp_all add: lits)
  then show ?thesis by (simp add: fix_for_def lower_of_plain plain_diags)
qed

lemma fix_for_memory: "fix_for u diag_memory = fix_memory"
proof -
  have "\<not> str_in (cps ''missing python package'') (map ascii_lower diag_memory)"
       "\<not> str_in (cps ''modulenotfounderror'') (map ascii_lower diag_memory)"
       "\<not> str_in (cps ''syntaxerror'') (map ascii_lower diag_memory)"
       "\<not> str_in (cps ''pip install failure'') (map ascii_lower diag_memory)"
       "str_in (cps ''out of memory'') (map ascii_lower diag_memory)" by (simp_all add: lits)
  then show ?thesis by (simp add: fix_for_def lower_of_plain plain_diags)
qed

lemma fix_for_fallback: "fix_for u diag_fallback = fix_generic"
proof -
  have "\<not> str_in (cps ''missing python package'') (map ascii_lower diag_fallback)"
       "\<not> str_in (cps ''modulenotfounderror'') (map ascii_lower diag_fallback)"
       "\<not> str_in (cps ''syntaxerror'') (map ascii_lower diag_fallback)"
       "\<not> str_in (cps ''pip install failure'') (map ascii_lower diag_fallback)"
       "\<not> str_in (cps ''out of memory'') (map ascii_lower diag_fallback)" by (simp_all add: lits)
  then show ?thesis by (simp add: fix_for_def lower_of_plain plain_diags)
qed

lemma module_phrase:
  "str_in (cps ''missing python package'') (map ascii_lower diag_module)"
  by (simp add: lits)

section \<open>The diagnoser against the rule table\<close>

lemma diags_distinct:
  "distinct [diag_module, diag_syntax, diag_pip, diag_permission, diag_memory, diag_fallback]"
  by (simp add: lits)

lemma appends_filter:
  "(let d = ([]::'a list);
        d = (if b1 then d @ [m1] else d);
        d = (if b2 then d @ [m2] else d);
        d = (if b3 then d @ [m3] else d);
        d = (if b4 then d @ [m4] else d);
        d = (if b5 then d @ [m5] else d)
    in d) = map snd (filter fst [(b1, m1), (b2, m2), (b3, m3), (b4, m4), (b5, m5)])"
  by (cases b1; cases b2; cases b3; cases b4; cases b5) simp_all

lemma fired_bools:
  "fired l = map snd (filter fst [(rule_module l, diag_module), (rule_syntax l, diag_syntax),
      (rule_pip l, diag_pip), (rule_permission l, diag_permission), (rule_memory l, diag_memory)])"
  by (cases "rule_module l"; cases "rule_syntax l"; cases "rule_pip l";
      cases "rule_permission l"; cases "rule_memory l")
     (simp_all add: fired_def rule_table_def)

lemma diagnose_fired:
  "diagnose u t = (if fired (lower u t) = [] then [diag_fallback] else fired (lower u t))"
proof -
  have "diagnose u t =
      (let d = map snd (filter fst [(rule_module (lower u t), diag_module),
                 (rule_syntax (lower u t), diag_syntax), (rule_pip (lower u t), diag_pip),
                 (rule_permission (lower u t), diag_permission),
                 (rule_memory (lower u t), diag_memory)])
       in if d = [] then d @ [diag_fallback] else d)"
    unfolding appends_filter [symmetric] diagnose_def rule_module_def rule_syntax_def
      rule_pip_def rule_permission_def rule_memory_def Let_def ..
  then show ?thesis
    by (simp add: fired_bools Let_def)
qed

lemma distinct_fired: "distinct (fired l)"
proof -
  have "distinct (map snd rule_table)"
    using diags_distinct by (simp add: rule_table_def)
  then show ?thesis
    unfolding fired_def by (rule distinct_map_filter)
qed

lemma case_variant_ascii:
  assumes "map ascii_lower m = map ascii_lower (cps ''ModuleNotFoundError'')"
  shows "\<forall>c\<in>set m. c < 128 \<or> c = em_dash"
proof
  fix c assume "c \<in> set m"
  then have "ascii_lower c \<in> set (map ascii_lower m)" by simp
  then have "ascii_lower c \<in> set (map ascii_lower (cps ''ModuleNotFoundError''))"
    by (simp only: assms)
  then have "ascii_lower c < 128" by (auto simp add: lits)
  with ascii_lower_ge [of c] show "c < 128 \<or> c = em_dash" by simp
qed

section \<open>Runs of the handler\<close>

lemma lower_permission_logs:
  "lower u permission_logs = cps ''error: permission denied while writing file''"
  by (simp add: lower_of_plain plain_def permission_logs_def lits)

lemma diagnose_permission_logs: "diagnose u permission_logs = [diag_permission]"
  unfolding diagnose_def lower_permission_logs Let_def by (simp add: cps_def)

lemma analyse_permission_logs:
  "analyse u (JStr permission_logs) = Debug_ok [diag_permission] [fix_generic]"
  by (simp add: diagnose_permission_logs fix_for_permission)

lemma permission_logs_nonempty: "permission_logs \<noteq> []"
  by (simp add: permission_logs_def cps_def)



lemma allowed_set:
  "set (map strip (filter (\<lambda>k. strip k \<noteq> []) ps)) = {strip e | e. e \<in> set ps \<and> strip e \<noteq> []}"
  by auto

lemma split_ab: "split_str comma (cps ''a, b'') = [cps ''a'', cps '' b'']"
  by (simp add: split_str_def comma_def cps_def)

lemma strip_b: "strip (cps '' b'') = cps ''b''"
  by (simp add: strip_def isspace_def cps_def)

lemma debug_permission_run:
  assumes "ALLOWED_KEYS cfg = []"
    and "request_json req = Inr (JObj [(cps ''logs'', JStr permission_logs)])"
  shows "debug_with_ai u cfg net req sent = (Debug_ok [diag_permission] [fix_generic], sent)"
proof -
  from assms(1) have "simple_auth_ok cfg req" by (simp add: simple_auth_ok_def)
  with assms(2) show ?thesis
    by (simp add: debug_with_ai_def permission_logs_nonempty analyse_permission_logs
        del: analyse.simps)
qed

lemma analyse_parallel:
  "analyse u j = Debug_ok ds fs \<Longrightarrow> fs = map (fix_for u) ds"
  by (cases j) (auto simp add: fix_loop_map Let_def)

lemma debug_parallel:
  assumes "debug_with_ai u cfg net req sent = (Debug_ok ds fs, sent')"
  shows "fs = map (fix_for u) ds"
  using assms
  by (auto simp add: debug_with_ai_def Let_def simp del: analyse.simps
      split: if_splits sum.splits prod.splits dest: analyse_parallel)

section \<open>The access guard: claims C1 and C10\<close>

text \<open>
  Claim C1, as the code has it. With a non-empty \<open>ALLOWED_KEYS\<close> the guard allows a
  request exactly when the \<open>X-API-KEY\<close> value as it was supplied (the empty string when
  the header is absent; the value is not trimmed) equals the trimmed form of an entry of
  the comma-split list whose trimmed form is not empty; so a key that is allowed is not
  empty and has no white space around it. When \<open>ALLOWED_KEYS\<close> is unset or empty, every
  request is allowed, with or without the header.
\<close>

theorem simple_auth_ok_entries:
  "(simple_auth_ok cfg req \<longleftrightarrow>
      ALLOWED_KEYS cfg = []
      \<or> (\<exists>e\<in>set (split_str comma (ALLOWED_KEYS cfg)).
            strip e \<noteq> [] \<and> headers_get req [] = strip e))
   \<and> (ALLOWED_KEYS cfg \<noteq> [] \<and> simple_auth_ok cfg req
        \<longrightarrow> headers_get req [] \<noteq> [] \<and> strip (headers_get req []) = headers_get req [])
   \<and> (env ''ALLOWED_KEYS'' = None \<or> env ''ALLOWED_KEYS'' = Some []
        \<longrightarrow> simple_auth_ok (load_config env) req')"
proof -
  have entries: "simple_auth_ok cfg req \<longleftrightarrow>
      ALLOWED_KEYS cfg = []
      \<or> (\<exists>e\<in>set (split_str comma (ALLOWED_KEYS cfg)).
            strip e \<noteq> [] \<and> headers_get req [] = strip e)"
    unfolding simple_auth_ok_def Let_def allowed_set by auto
  have trimmed: "ALLOWED_KEYS cfg \<noteq> [] \<and> simple_auth_ok cfg req
        \<longrightarrow> headers_get req [] \<noteq> [] \<and> strip (headers_get req []) = headers_get req []"
    using entries by (auto simp add: strip_strip)
  have unset: "env ''ALLOWED_KEYS'' = None \<or> env ''ALLOWED_KEYS'' = Some []
        \<longrightarrow> simple_auth_ok (load_config env) req'"
    by (auto simp add: simple_auth_ok_def load_config_def getenv_def)
  from entries trimmed unset show ?thesis by blast
qed

theorem simple_auth_ok_entries_witness:
  "simple_auth_ok (cfg_keys ''a, b'') (req_key ''b'')
   \<and> simple_auth_ok (load_config Map.empty) (req_key ''b'')"
proof -
  have "ALLOWED_KEYS (cfg_keys ''a, b'') = cps ''a, b''" by (simp add: cfg_keys_def)
  moreover have "headers_get (req_key ''b'') [] = cps ''b''"
    by (simp add: headers_get_def req_key_def)
  moreover have "cps ''b'' \<noteq> []" by (simp add: cps_def)
  ultimately show ?thesis
    using simple_auth_ok_entries [of "cfg_keys ''a, b''" "req_key ''b''" Map.empty "req_key ''b''"]
    by (simp add: split_ab strip_b)
qed

text \<open>
  The wording of the claim trims the supplied key. With \<open>ALLOWED_KEYS = "a"\<close> and the
  header value \<open>"a "\<close> the trimmed key is the entry \<open>a\<close>, yet the guard compares the
  untrimmed value and refuses the request.
\<close>

theorem trimmed_key_counterexample:
  "\<not> (simple_auth_ok (cfg_keys ''a'') (req_key ''a '')
        \<longleftrightarrow> spec_auth_ok (cfg_keys ''a'') (req_key ''a ''))"
  by (simp add: simple_auth_ok_def spec_auth_ok_def cfg_keys_def req_key_def headers_get_def
      split_str_def strip_def isspace_def comma_def cps_def)

text \<open>
  Claim C10. When \<open>ALLOWED_KEYS\<close> is not empty, a request without the \<open>X-API-KEY\<close>
  header, or with the empty string as its value, is refused, also when the comma-split
  list has empty or blank entries: those are filtered out before the lookup.
\<close>

theorem no_key_never_allowed:
  assumes "ALLOWED_KEYS cfg \<noteq> []" and "x_api_key req = None \<or> x_api_key req = Some []"
  shows "\<not> simple_auth_ok cfg req"
proof -
  from assms(2) have "headers_get req [] = []" by (auto simp add: headers_get_def)
  with assms(1) show ?thesis by (auto simp add: simple_auth_ok_def Let_def)
qed

theorem no_key_never_allowed_witness:
  "ALLOWED_KEYS (cfg_keys ''a,,b'') \<noteq> []
   \<and> [] \<in> set (split_str comma (ALLOWED_KEYS (cfg_keys ''a,,b'')))
   \<and> \<not> simple_auth_ok (cfg_keys ''a,,b'') \<lparr>x_api_key = None, request_json = Inr JNull\<rparr>
   \<and> ALLOWED_KEYS (cfg_keys '' , '') \<noteq> []
   \<and> \<not> simple_auth_ok (cfg_keys '' , '') (req_key '''')"
proof -
  have a: "ALLOWED_KEYS (cfg_keys ''a,,b'') \<noteq> []" by (simp add: cfg_keys_def cps_def)
  have b: "ALLOWED_KEYS (cfg_keys '' , '') \<noteq> []" by (simp add: cfg_keys_def cps_def)
  have c: "[] \<in> set (split_str comma (ALLOWED_KEYS (cfg_keys ''a,,b'')))"
    by (simp add: cfg_keys_def split_str_def comma_def cps_def)
  have "x_api_key (req_key '''') = Some []" by (simp add: req_key_def cps_def)
  then show ?thesis
    using a b c
      no_key_never_allowed [of "cfg_keys ''a,,b''" "\<lparr>x_api_key = None, request_json = Inr JNull\<rparr>"]
      no_key_never_allowed [of "cfg_keys '' , ''" "req_key ''''"]
    by simp
qed

section \<open>The diagnoser: claims C3, C4 and C5\<close>

text \<open>
  Claim C3. When the log text contains a block that equals \<open>ModuleNotFoundError\<close> up to
  the case of its letters, the list of diagnostics contains the missing-package message,
  whatever else the text holds and whatever the case tables do outside ASCII.
\<close>

theorem diagnose_module_not_found:
  assumes "str_in m t" and "map ascii_lower m = map ascii_lower (cps ''ModuleNotFoundError'')"
  shows "diag_module \<in> set (diagnose u t)"
proof -
  from assms(1) obtain a b where t: "t = a @ m @ b" by (auto simp add: str_in_iff)
  have "str_in (map ascii_lower m) (lower u t)"
    unfolding t by (rule lower_contains [OF case_variant_ascii [OF assms(2)]])
  moreover have "map ascii_lower m = cps ''modulenotfounderror''"
    by (simp add: assms(2)) (simp add: lits)
  ultimately have "rule_module (lower u t)" by (simp add: rule_module_def)
  then show ?thesis by (simp add: diagnose_fired fired_def rule_table_def)
qed

theorem diagnose_module_not_found_witness:
  "str_in (cps ''MODULENOTFOUNDERROR'') (cps ''x: MODULENOTFOUNDERROR: no module named y'')
   \<and> diag_module \<in> set (diagnose uncased (cps ''x: MODULENOTFOUNDERROR: no module named y''))"
proof -
  have a: "str_in (cps ''MODULENOTFOUNDERROR'') (cps ''x: MODULENOTFOUNDERROR: no module named y'')"
    by (simp add: cps_def)
  have b: "map ascii_lower (cps ''MODULENOTFOUNDERROR'') = map ascii_lower (cps ''ModuleNotFoundError'')"
    by (simp add: lits)
  from diagnose_module_not_found [OF a b, of uncased] a show ?thesis by simp
qed

text \<open>
  Claim C4. When none of the five rules holds on the lower-cased text, the diagnoser
  returns the fallback message and nothing else; and for every text its result is not the
  empty list.
\<close>

theorem diagnose_fallback:
  "(\<not> rule_module (lower u t) \<and> \<not> rule_syntax (lower u t) \<and> \<not> rule_pip (lower u t)
      \<and> \<not> rule_permission (lower u t) \<and> \<not> rule_memory (lower u t)
     \<longrightarrow> diagnose u t = [diag_fallback])
   \<and> diagnose u t \<noteq> []"
  by (simp add: diagnose_fired fired_def rule_table_def)

theorem diagnose_fallback_witness:
  "\<not> rule_module (lower uncased (cps ''Build OK'')) \<and> \<not> rule_syntax (lower uncased (cps ''Build OK''))
   \<and> \<not> rule_pip (lower uncased (cps ''Build OK'')) \<and> \<not> rule_permission (lower uncased (cps ''Build OK''))
   \<and> \<not> rule_memory (lower uncased (cps ''Build OK''))
   \<and> diagnose uncased (cps ''Build OK'') = [diag_fallback]"
proof -
  have l: "lower uncased (cps ''Build OK'') = cps ''build ok''"
    by (simp add: lower_of_plain plain_def lits)
  have r: "\<not> rule_module (cps ''build ok'')" "\<not> rule_syntax (cps ''build ok'')"
    "\<not> rule_pip (cps ''build ok'')" "\<not> rule_permission (cps ''build ok'')"
    "\<not> rule_memory (cps ''build ok'')"
    by (simp_all add: rule_module_def rule_syntax_def rule_pip_def rule_permission_def
        rule_memory_def cps_def)
  from diagnose_fallback [of uncased "cps ''Build OK''"] r show ?thesis
    unfolding l by simp
qed

text \<open>
  Claim C5. All five rules are evaluated, none of them cuts the others short: the result
  is the list of the messages of the rules that hold on the lower-cased text, in the order
  of the rule table (the fallback message alone when no rule holds), and no message occurs
  twice in it.
\<close>

theorem diagnose_all_rules_in_order:
  "diagnose u t = (if fired (lower u t) = [] then [diag_fallback] else fired (lower u t))
   \<and> distinct (diagnose u t)"
  by (simp add: diagnose_fired distinct_fired)

section \<open>The fix mapper: claims C2 and C6\<close>

text \<open>
  Claim C2. For every log text the analysis answers with a list of diagnostics and a list
  of suggested fixes of the same length, and the fix at each position is the one computed
  from the diagnostic at that position alone. The same holds for every answer of the
  route \<open>/debug\<close> that carries the two lists.
\<close>

theorem fixes_parallel:
  "(\<exists>ds fs. analyse u (JStr t) = Debug_ok ds fs \<and> ds = diagnose u t
       \<and> length fs = length ds \<and> fs = map (fix_for u) ds)
   \<and> (debug_with_ai u cfg net req sent = (Debug_ok ds' fs', sent')
        \<longrightarrow> length fs' = length ds' \<and> (\<forall>i<length ds'. fs' ! i = fix_for u (ds' ! i)))"
proof
  show "\<exists>ds fs. analyse u (JStr t) = Debug_ok ds fs \<and> ds = diagnose u t
       \<and> length fs = length ds \<and> fs = map (fix_for u) ds"
    by (simp add: fix_loop_map Let_def)
  show "debug_with_ai u cfg net req sent = (Debug_ok ds' fs', sent')
        \<longrightarrow> length fs' = length ds' \<and> (\<forall>i<length ds'. fs' ! i = fix_for u (ds' ! i))"
  proof
    assume "debug_with_ai u cfg net req sent = (Debug_ok ds' fs', sent')"
    then have "fs' = map (fix_for u) ds'" by (rule debug_parallel)
    then show "length fs' = length ds' \<and> (\<forall>i<length ds'. fs' ! i = fix_for u (ds' ! i))"
      by simp
  qed
qed

theorem fixes_parallel_witness:
  "debug_with_ai uncased cfg_render net_down (req_logs (JStr permission_logs)) []
     = (Debug_ok [diag_permission] [fix_generic], [])
   \<and> length [fix_generic] = length [diag_permission]
   \<and> [fix_generic] ! 0 = fix_for uncased ([diag_permission] ! 0)"
proof -
  have run: "debug_with_ai uncased cfg_render net_down (req_logs (JStr permission_logs)) []
     = (Debug_ok [diag_permission] [fix_generic], [])"
    by (rule debug_permission_run) (simp_all add: cfg_render_def req_logs_def)
  with fixes_parallel [of uncased "[]" cfg_render net_down "req_logs (JStr permission_logs)"
      "[]" "[diag_permission]" "[fix_generic]" "[]"]
  show ?thesis by simp
qed

text \<open>
  Claim C6, as the code has it. The phrase \<open>missing python package\<close> does occur in the
  lower-cased text of the missing-package diagnostic, because lower-casing turns
  \<open>Python\<close> into \<open>python\<close>; so the first test of the fix mapper holds for this
  diagnostic and its fix is the package fix.
\<close>

theorem module_fix_phrase_occurs:
  "str_in (cps ''missing python package'') (lower u diag_module)
   \<and> fix_for u diag_module = fix_package"
  by (simp add: fix_for_def lower_of_plain plain_diags module_phrase)

text \<open>
  The claim says that the phrase does not occur in the lower-cased diagnostic. It does.
\<close>

theorem module_fix_phrase_counterexample:
  "\<not> \<not> str_in (cps ''missing python package'') (lower uncased diag_module)"
  by (simp add: lower_of_plain plain_diags module_phrase)

section \<open>The log fetcher and the route: claims C7, C8 and C9\<close>

text \<open>
  Claim C7. When the API token or the service id is empty, \<open>get_build_logs\<close> raises the
  configuration error and the log of the requests sent is unchanged: nothing went to the
  upstream API.
\<close>

theorem get_build_logs_unconfigured:
  "RENDER_API_TOKEN cfg = [] \<or> RENDER_SERVICE_ID cfg = [] \<Longrightarrow>
     get_build_logs cfg net sent = (Inl (RuntimeError config_message), sent)"
  by (simp add: get_build_logs_def)

theorem get_build_logs_unconfigured_witness:
  "RENDER_SERVICE_ID (cfg_render\<lparr>RENDER_SERVICE_ID := []\<rparr>) = []
   \<and> get_build_logs (cfg_render\<lparr>RENDER_SERVICE_ID := []\<rparr>) net_echo []
       = (Inl (RuntimeError config_message), [])"
  using get_build_logs_unconfigured [of "cfg_render\<lparr>RENDER_SERVICE_ID := []\<rparr>" net_echo "[]"]
  by simp

text \<open>
  Claim C8. With \<open>ALLOWED_KEYS\<close> empty, a request to \<open>/debug\<close> whose body is
  \<open>{"logs": "Error: permission denied while writing file"}\<close> is answered with status
  200 and \<open>"status": "ok"\<close>; the diagnostics are the permission-denied message, the
  suggested fix at its position is the fix the mapper computes for it, and no request is
  sent upstream, whatever the network would have answered.
\<close>

theorem debug_permission_denied:
  assumes "ALLOWED_KEYS cfg = []"
    and "request_json req = Inr (JObj [(cps ''logs'', JStr permission_logs)])"
  shows "debug_with_ai u cfg net req sent = (Debug_ok [diag_permission] [fix_generic], sent)
    \<and> http_status (fst (debug_with_ai u cfg net req sent)) = 200
    \<and> status_field (fst (debug_with_ai u cfg net req sent)) = ''ok''
    \<and> fix_for u diag_permission = fix_generic"
proof -
  have "debug_with_ai u cfg net req sent = (Debug_ok [diag_permission] [fix_generic], sent)"
    using assms by (rule debug_permission_run)
  then show ?thesis by (simp add: fix_for_permission)
qed

theorem debug_permission_denied_witness:
  "ALLOWED_KEYS cfg_render = []
   \<and> debug_with_ai uncased cfg_render net_down (req_logs (JStr permission_logs)) []
       = (Debug_ok [diag_permission] [fix_generic], [])"
proof -
  have a: "ALLOWED_KEYS cfg_render = []" by (simp add: cfg_render_def)
  have b: "request_json (req_logs (JStr permission_logs))
             = Inr (JObj [(cps ''logs'', JStr permission_logs)])"
    by (simp add: req_logs_def)
  from debug_permission_denied [OF a b, of uncased net_down "[]"] a show ?thesis by simp
qed




end
